theory Spec2Isabelle
  imports Complex_Main "HOL-Library.AList"
begin

section \<open>Python values and exceptions used by app.py\<close>

text \<open>
  The two Python exceptions that the script can meet while indexing lists and
  dictionaries. \<open>IndexError\<close> is caught in one place only (the per-level block of the
  assembly loop); everywhere else both propagate.
\<close>

datatype py_error = IndexError | KeyError

text \<open>Decimal rendering of a non-negative integer, as an f-string renders \<open>{n}\<close>.\<close>

definition digit_char :: "nat \<Rightarrow> char" where
  "digit_char d = char_of (48 + d)"

fun str_of_nat :: "nat \<Rightarrow> string" where
  "str_of_nat n =
     (if n < 10 then [digit_char n] else str_of_nat (n div 10) @ [digit_char (n mod 10)])"

declare str_of_nat.simps [simp del]

section \<open>Input validation: \<open>validate_input\<close> (app.py, lines 42-87)\<close>

text \<open>
  \<open>st.error(msg); st.stop()\<close> ends the run of the script after showing \<open>msg\<close>. Each
  of the four places where \<open>validate_input\<close> does so is a constructor carrying the
  message shown; \<open>Uncaught\<close> is a Python exception that nothing catches.
\<close>

datatype error =
    ParseError string
  | DuplicateIdentifierError string
  | MalformedHeaderError string
  | TooManyRecordsError string
  | Uncaught py_error

text \<open>The part of \<open>st.session_state\<close> that \<open>validate_input\<close> writes (lines 86-87).\<close>

record session_state =
  ss_seq_ids :: "string list option"
  ss_fasta_content :: "string option"

text \<open>
  \<open>header_seq_dict\<close>: a Python dictionary keeps its keys in insertion order, and the
  loops of \<open>validate_input\<close> iterate over the keys in that order.
\<close>

type_synonym header_seq_dict = "(string \<times> string) list"

definition parse_error_message :: "string \<Rightarrow> string" where
  "parse_error_message e_args0 =
     e_args0 @ ''\<newline>\<newline>Please ensure all FASTA headers are unique.''"

definition duplicate_id_message :: "string \<Rightarrow> string" where
  "duplicate_id_message seq_id =
     ''Duplicate sequence ID found: `'' @ seq_id @
     ''`\<newline>\<newline>Please ensure all sequence IDs are unique.''"

definition invalid_header_message :: string where
  "invalid_header_message =
     ''Invalid FASTA header(s) found. Please ensure that each header starts with '>' plus at least one more non-empty character.''"

definition too_many_message :: string where
  "too_many_message = ''Please limit the number of sequences to 100 or fewer.''"

definition accepted_message :: "nat \<Rightarrow> string" where
  "accepted_message num_seqs =
     ''<p style='font-size: smaller; color: gray;'>You provided '' @ str_of_nat num_seqs @
     '' valid sequences (max: 100)</p>''"

text \<open>
  Lines 52-62. \<open>parse_unite_fasta_header(header)[0]\<close> raises \<open>IndexError\<close> when the
  library returns no field; the first identifier met a second time stops the run.
\<close>

fun collect_seq_ids ::
  "(string \<Rightarrow> string list) \<Rightarrow> string list \<Rightarrow> string list \<Rightarrow> error + string list" where
  "collect_seq_ids parse_header [] seq_ids = Inr seq_ids"
| "collect_seq_ids parse_header (header # headers) seq_ids =
     (case parse_header header of
        [] \<Rightarrow> Inl (Uncaught IndexError)
      | seq_id # _ \<Rightarrow>
          if seq_id \<notin> set seq_ids
          then collect_seq_ids parse_header headers (seq_ids @ [seq_id])
          else Inl (DuplicateIdentifierError (duplicate_id_message seq_id)))"

text \<open>Lines 65-68: the test \<open>len(header) > 1\<close> and the loop counting the headers that pass it.\<close>

definition valid_header :: "string \<Rightarrow> bool" where
  "valid_header header \<longleftrightarrow> length header > 1"

fun count_valid_headers :: "string list \<Rightarrow> nat \<Rightarrow> nat" where
  "count_valid_headers [] num_valid_headers = num_valid_headers"
| "count_valid_headers (header # headers) num_valid_headers =
     count_valid_headers headers
       (if valid_header header then num_valid_headers + 1 else num_valid_headers)"

text \<open>
  \<open>validate_input\<close>. The two functions of the taxotagger library that it calls,
  \<open>parse_fasta\<close> and \<open>parse_unite_fasta_header\<close>, are parameters: \<open>parse\<close> returns
  \<open>Inl\<close> of the argument of the \<open>ValueError\<close> it raised, or \<open>Inr\<close> of the dictionary.
  On success the result is the text shown by \<open>st.markdown\<close> and the new session state.
\<close>

definition validate_input ::
  "(string \<Rightarrow> string + header_seq_dict) \<Rightarrow> (string \<Rightarrow> string list) \<Rightarrow>
   string \<Rightarrow> session_state \<Rightarrow> error + (string \<times> session_state)" where
  "validate_input parse parse_header content st =
     (case parse content of
        Inl e_args0 \<Rightarrow> Inl (ParseError (parse_error_message e_args0))
      | Inr header_seq_dict \<Rightarrow>
          (case collect_seq_ids parse_header (map fst header_seq_dict) [] of
             Inl err \<Rightarrow> Inl err
           | Inr ids \<Rightarrow>
               let num_seqs = length header_seq_dict;
                   num_valid_headers = count_valid_headers (map fst header_seq_dict) 0
               in if num_valid_headers \<noteq> num_seqs
                  then Inl (MalformedHeaderError invalid_header_message)
                  else if num_seqs > 100
                  then Inl (TooManyRecordsError too_many_message)
                  else Inr (accepted_message num_seqs,
                            st\<lparr>ss_seq_ids := Some ids, ss_fasta_content := Some content\<rparr>)))"

subsection \<open>The library functions, as the specification describes them\<close>

text \<open>Lines of a text, split at the newline character.\<close>

fun split_lines :: "string \<Rightarrow> string list" where
  "split_lines [] = []"
| "split_lines (c # cs) =
     (if c = CHR 0x0A then [] # split_lines cs
      else (case split_lines cs of [] \<Rightarrow> [[c]] | l # ls \<Rightarrow> (c # l) # ls))"

definition is_header :: "string \<Rightarrow> bool" where
  "is_header l = (case l of [] \<Rightarrow> False | c # _ \<Rightarrow> c = CHR ''>'')"

definition append_seq :: "string \<Rightarrow> header_seq_dict \<Rightarrow> header_seq_dict" where
  "append_seq l d =
     (if d = [] then [] else butlast d @ [(fst (last d), snd (last d) @ l)])"

fun parse_lines :: "string list \<Rightarrow> header_seq_dict \<Rightarrow> string + header_seq_dict" where
  "parse_lines [] d = Inr d"
| "parse_lines (l # ls) d =
     (if is_header l
      then (if l \<in> set (map fst d) then Inl (''Duplicate header found: '' @ l)
            else parse_lines ls (d @ [(l, [])]))
      else parse_lines ls (append_seq l d))"

text \<open>
  Modelled from the spec: \<open>parse_fasta\<close> of the taxotagger library, which is not part
  of this repository's sources. The specification says that it parses the raw text into a
  mapping from header to sequence content, that a record is a header line starting with
  the delimiter followed by sequence lines that are concatenated, and that it fails when
  two headers are identical. The header keeps its delimiter, as the test
  \<open>len(header) > 1\<close> of \<open>validate_input\<close> and its message expect. Lines before the
  first header belong to no record.
\<close>

definition parse_fasta :: "string \<Rightarrow> string + header_seq_dict" where
  "parse_fasta content = parse_lines (split_lines content) []"

definition is_space :: "char \<Rightarrow> bool" where
  "is_space c \<longleftrightarrow> c \<in> set [CHR '' '', CHR 0x09, CHR 0x0A, CHR 0x0B, CHR 0x0C, CHR 0x0D]"

definition strip_delimiter :: "string \<Rightarrow> string" where
  "strip_delimiter header =
     (case header of [] \<Rightarrow> [] | c # rest \<Rightarrow> if c = CHR ''>'' then rest else header)"

definition first_token :: "string \<Rightarrow> string" where
  "first_token s = takeWhile (\<lambda>c. \<not> is_space c) (dropWhile is_space s)"

text \<open>
  Modelled from the spec: \<open>parse_unite_fasta_header\<close> of the taxotagger library, which
  is not part of this repository's sources. The specification gives the first field it
  returns, the sequence identifier: the header is stripped of its leading delimiter and
  split on whitespace, and the first token is taken. The other fields are not used by
  app.py and are left out.
\<close>

definition parse_unite_fasta_header :: "string \<Rightarrow> string list" where
  "parse_unite_fasta_header header = [first_token (strip_delimiter header)]"

definition header_lines :: "string \<Rightarrow> string list" where
  "header_lines content = filter is_header (split_lines content)"

definition st0 :: session_state where
  "st0 = \<lparr>ss_seq_ids = None, ss_fasta_content = None\<rparr>"

text \<open>
  Inputs used as examples below: \<open>n\<close> records whose headers all differ
  (\<open>>a 0\<close>, \<open>>a 1\<close>, ...) and all have the identifier \<open>a\<close>.
\<close>

definition shared_id_record :: "nat \<Rightarrow> string" where
  "shared_id_record i = ''>a '' @ str_of_nat i @ ''\<newline>A\<newline>''"

definition shared_id_records :: "nat \<Rightarrow> string" where
  "shared_id_records n = concat (map shared_id_record [0..<n])"

section \<open>The search call: \<open>process_fasta_and_run\<close> (app.py, lines 156-172)\<close>

text \<open>
  The file system is a map from path to content. The exceptions that can leave
  \<open>process_fasta_and_run\<close> are the one of \<open>os.unlink\<close> on a missing path and
  whatever the engine raised (\<open>'e\<close>).
\<close>

type_synonym fs = "string \<rightharpoonup> string"

datatype 'e run_error = FileNotFoundError | EngineFailure 'e

text \<open>\<open>temp_fasta.write(fasta_content); temp_fasta.flush()\<close> on the file just created.\<close>

definition write_file :: "string \<Rightarrow> string \<Rightarrow> fs \<Rightarrow> fs" where
  "write_file name content files = files(name \<mapsto> content)"

definition os_unlink :: "string \<Rightarrow> fs \<Rightarrow> fs \<times> ('e run_error + unit)" where
  "os_unlink name files =
     (if name \<in> dom files then (files(name := None), Inr ())
      else (files, Inl FileNotFoundError))"

text \<open>
  \<open>try: body finally: cleanup\<close>: the cleanup runs whatever the body did; an
  exception of the cleanup replaces the outcome of the body, otherwise the outcome of
  the body (its value or its exception) is the outcome of the statement.
\<close>

definition try_finally ::
  "(fs \<Rightarrow> fs \<times> ('x + 'a)) \<Rightarrow> (fs \<Rightarrow> fs \<times> ('x + unit)) \<Rightarrow> fs \<Rightarrow> fs \<times> ('x + 'a)" where
  "try_finally body cleanup files =
     (let (files1, outcome) = body files;
          (files2, cleaned) = cleanup files1
      in case cleaned of Inl e \<Rightarrow> (files2, Inl e) | Inr _ \<Rightarrow> (files2, outcome))"

text \<open>
  \<open>tt.search(temp_fasta.name, model_id=..., limit=...)\<close>: the engine is outside this
  repository; it is a parameter that reads the file system and returns its results or
  the exception it raised. \<open>name\<close> is the path that \<open>NamedTemporaryFile\<close> chose;
  with \<open>delete=False\<close> leaving the \<open>with\<close> block does not remove the file.
\<close>

definition process_fasta_and_run ::
  "(fs \<Rightarrow> string \<Rightarrow> string \<Rightarrow> nat \<Rightarrow> 'e + 'r) \<Rightarrow> string \<Rightarrow> string \<Rightarrow> nat \<Rightarrow>
   string \<Rightarrow> fs \<Rightarrow> fs \<times> ('e run_error + 'r)" where
  "process_fasta_and_run search name selected_model top_n content files =
     (let files1 = write_file name content files
      in try_finally
           (\<lambda>fs1. (fs1, case search fs1 name selected_model top_n of
                           Inl e \<Rightarrow> Inl (EngineFailure e) | Inr results \<Rightarrow> Inr results))
           (os_unlink name)
           files1)"

section \<open>Result assembly (app.py, lines 183-228)\<close>

text \<open>
  A match of the engine: \<open>match["id"]\<close> (whose presence the script tests with
  \<open>"id" in result\<close>), \<open>match["distance"]\<close> and \<open>match["entity"]\<close>, a dictionary from
  level name to label. The type of the score is left open: the script only copies it.
\<close>

record 's match =
  match_id :: "string option"
  distance :: 's
  entity :: "string \<rightharpoonup> string"

text \<open>\<open>results\<close>: level name to per-sequence lists of ranked matches.\<close>

type_synonym 's results = "string \<rightharpoonup> 's match list list"

text \<open>A cell of a result record: a string, the integer rank, or a score.\<close>

datatype 's cell = Str string | Rank int | Score 's

text \<open>
  A result record is a Python dictionary: assigning to a key that is present replaces
  its value in place, assigning to a new key appends it (\<open>AList.update\<close>).
\<close>

type_synonym 's row = "(string \<times> 's cell) list"

text \<open>\<open>str.capitalize\<close>, on ASCII: the first character upper case, the others lower case.\<close>

definition to_upper :: "char \<Rightarrow> char" where
  "to_upper c =
     (let n = (of_char c :: nat) in if 97 \<le> n \<and> n \<le> 122 then char_of (n - 32) else c)"

definition to_lower :: "char \<Rightarrow> char" where
  "to_lower c =
     (let n = (of_char c :: nat) in if 65 \<le> n \<and> n \<le> 90 then char_of (n + 32) else c)"

definition capitalize :: "string \<Rightarrow> string" where
  "capitalize s = (case s of [] \<Rightarrow> [] | c # cs \<Rightarrow> to_upper c # map to_lower cs)"

text \<open>
  Lines 212-226, the body of \<open>for level in TAXONOMY_LEVELS\<close>. \<open>results[level]\<close>
  raises \<open>KeyError\<close> for a level the engine did not return and \<open>match["id"]\<close> for a
  match without identifier; neither is caught. \<open>results[level][i][j]\<close> raises
  \<open>IndexError\<close> when \<open>i\<close> or \<open>j\<close> is out of range, which the \<open>except\<close> clause turns
  into the label \<open>No match found\<close>.
\<close>

definition set_level ::
  "'s results \<Rightarrow> nat \<Rightarrow> nat \<Rightarrow> string \<Rightarrow> 's row \<Rightarrow> py_error + 's row" where
  "set_level results i j level result =
     (let level_cap = capitalize level in
      case results level of
        None \<Rightarrow> Inl KeyError
      | Some per_seq \<Rightarrow>
          if i < length per_seq \<and> j < length (per_seq ! i) then
            (let mtch = per_seq ! i ! j;
                 label = (case entity mtch level of None \<Rightarrow> [] | Some v \<Rightarrow> v)
             in if label \<noteq> [] then
                  (case match_id mtch of
                     None \<Rightarrow> Inl KeyError
                   | Some hit \<Rightarrow>
                       Inr (AList.update (level_cap @ ''_Similarity'') (Score (distance mtch))
                             (AList.update (level_cap @ ''_Hit'') (Str hit)
                               (AList.update level_cap (Str label) result))))
                else
                  Inr (AList.update (level_cap @ ''_Similarity'') (Str [])
                        (AList.update (level_cap @ ''_Hit'') (Str [])
                          (AList.update level_cap (Str []) result))))
          else Inr (AList.update level_cap (Str ''No match found'') result))"

fun set_levels ::
  "'s results \<Rightarrow> nat \<Rightarrow> nat \<Rightarrow> string list \<Rightarrow> 's row \<Rightarrow> py_error + 's row" where
  "set_levels results i j [] result = Inr result"
| "set_levels results i j (level # levels) result =
     (case set_level results i j level result of
        Inl e \<Rightarrow> Inl e
      | Inr result' \<Rightarrow> set_levels results i j levels result')"

text \<open>Lines 208-226: the record of sequence \<open>i\<close> at rank \<open>j\<close> (0-based).\<close>

definition make_result ::
  "string list \<Rightarrow> 's results \<Rightarrow> string \<Rightarrow> nat \<Rightarrow> nat \<Rightarrow> py_error + 's row" where
  "make_result levels results seq_id i j =
     set_levels results i j levels
       [(''Sequence_ID'', Str seq_id), (''Rank'', Rank (int j + 1))]"

text \<open>Lines 207-227: \<open>for j in range(top_n)\<close>, appending each record.\<close>

fun rank_loop ::
  "string list \<Rightarrow> 's results \<Rightarrow> string \<Rightarrow> nat \<Rightarrow> nat list \<Rightarrow> 's row list \<Rightarrow>
   py_error + 's row list" where
  "rank_loop levels results seq_id i [] rows = Inr rows"
| "rank_loop levels results seq_id i (j # js) rows =
     (case make_result levels results seq_id i j of
        Inl e \<Rightarrow> Inl e
      | Inr result \<Rightarrow> rank_loop levels results seq_id i js (rows @ [result]))"

text \<open>
  Lines 205-227: \<open>for i, seq_id in enumerate(seq_ids)\<close>. \<open>results_by_seq\<close> is a
  dictionary: a sequence identifier met again replaces the records stored under it.
\<close>

fun seq_loop ::
  "string list \<Rightarrow> 's results \<Rightarrow> nat \<Rightarrow> (nat \<times> string) list \<Rightarrow> (string \<times> 's row list) list \<Rightarrow>
   py_error + (string \<times> 's row list) list" where
  "seq_loop levels results top_n [] results_by_seq = Inr results_by_seq"
| "seq_loop levels results top_n ((i, seq_id) # rest) results_by_seq =
     (case rank_loop levels results seq_id i [0..<top_n] [] of
        Inl e \<Rightarrow> Inl e
      | Inr rows \<Rightarrow>
          seq_loop levels results top_n rest (AList.update seq_id rows results_by_seq))"

definition assemble ::
  "string list \<Rightarrow> 's results \<Rightarrow> string list \<Rightarrow> nat \<Rightarrow>
   py_error + (string \<times> 's row list) list" where
  "assemble levels results seq_ids top_n =
     seq_loop levels results top_n (zip [0..<length seq_ids] seq_ids) []"

subsection \<open>The check of the counts (lines 184-201)\<close>

datatype st_event = St_error string | St_warning string | St_write string

definition mismatch_message :: "nat \<Rightarrow> nat \<Rightarrow> string" where
  "mismatch_message num_ids num_results =
     ''Mismatch between number of input sequences ('' @ str_of_nat num_ids @
     '') and results ('' @ str_of_nat num_results @
     ''). Some sequences may not have been processed.''"

text \<open>Lines 193-196: the identifiers of the matches of one level.\<close>

definition match_ids :: "'s match list list \<Rightarrow> string list" where
  "match_ids per_seq =
     concat (map (\<lambda>result_list.
        concat (map (\<lambda>result. case match_id result of None \<Rightarrow> [] | Some x \<Rightarrow> [x]) result_list))
       per_seq)"

fun processed_ids ::
  "'s results \<Rightarrow> string list \<Rightarrow> string list \<Rightarrow> py_error + string list" where
  "processed_ids results [] processed = Inr processed"
| "processed_ids results (level # levels) processed =
     (case results level of
        None \<Rightarrow> Inl KeyError
      | Some per_seq \<Rightarrow> processed_ids results levels (processed @ match_ids per_seq))"

text \<open>
  Line 197: \<open>set(seq_ids) - processed_ids\<close>. Python leaves the iteration order of a
  set open; the model lists the elements in the order of \<open>seq_ids\<close>.
\<close>

definition unprocessed_ids ::
  "'s results \<Rightarrow> string list \<Rightarrow> string list \<Rightarrow> py_error + string list" where
  "unprocessed_ids results levels seq_ids =
     (case processed_ids results levels [] of
        Inl e \<Rightarrow> Inl e
      | Inr processed \<Rightarrow> Inr (filter (\<lambda>s. s \<notin> set processed) (remdups seq_ids)))"

text \<open>
  Lines 184-201. \<open>TAXONOMY_LEVELS[0]\<close> raises \<open>IndexError\<close> on an empty list of
  levels. Nothing here calls \<open>st.stop()\<close>: the result is the list of what was shown.
\<close>

definition check_counts ::
  "string list \<Rightarrow> 's results \<Rightarrow> string list \<Rightarrow> py_error + st_event list" where
  "check_counts levels results seq_ids =
     (case levels of
        [] \<Rightarrow> Inl IndexError
      | level0 # _ \<Rightarrow>
          (case results level0 of
             None \<Rightarrow> Inl KeyError
           | Some per_seq \<Rightarrow>
               if length per_seq \<noteq> length seq_ids then
                 (case unprocessed_ids results levels seq_ids of
                    Inl e \<Rightarrow> Inl e
                  | Inr unprocessed \<Rightarrow>
                      Inr (St_error (mismatch_message (length seq_ids) (length per_seq)) #
                           (if unprocessed \<noteq> [] then
                              St_warning ''The following sequences were not processed:'' #
                              map (\<lambda>unprocessed_id. St_write (''- '' @ unprocessed_id)) unprocessed
                            else [])))
               else Inr []))"

text \<open>
  Lines 183-228: what the script does with the results of the engine; the value is
  what it showed and the \<open>results_by_seq\<close> that it stores in the session state.
\<close>

definition process_results ::
  "string list \<Rightarrow> 's results \<Rightarrow> string list \<Rightarrow> nat \<Rightarrow>
   py_error + (st_event list \<times> (string \<times> 's row list) list)" where
  "process_results levels results seq_ids top_n =
     (case check_counts levels results seq_ids of
        Inl e \<Rightarrow> Inl e
      | Inr shown \<Rightarrow>
          (case assemble levels results seq_ids top_n of
             Inl e \<Rightarrow> Inl e
           | Inr results_by_seq \<Rightarrow> Inr (shown, results_by_seq)))"

text \<open>
  What the engine owes the script: every level of \<open>TAXONOMY_LEVELS\<close> is a key of the
  results, and every match has an identifier.
\<close>

definition results_ok :: "string list \<Rightarrow> 's results \<Rightarrow> bool" where
  "results_ok levels results \<longleftrightarrow>
     (\<forall>level\<in>set levels.
        case results level of
          None \<Rightarrow> False
        | Some per_seq \<Rightarrow>
            \<forall>result_list\<in>set per_seq. \<forall>result\<in>set result_list. match_id result \<noteq> None)"

subsection \<open>Keys of a result record, and an example of engine results\<close>

text \<open>The keys that the body of the loop over the levels assigns for one level.\<close>

definition level_keys :: "string \<Rightarrow> string set" where
  "level_keys level =
     {capitalize level, capitalize level @ ''_Hit'', capitalize level @ ''_Similarity''}"

text \<open>
  One match, with a label for the genus and an empty label for the species, and the
  results of an engine that returned this match alone for one sequence on both levels.
\<close>

definition example_match :: "real match" where
  "example_match =
     \<lparr>match_id = Some ''MH855962'', distance = 0.93,
      entity = [''genus'' \<mapsto> ''Amanita'', ''species'' \<mapsto> []]\<rparr>"

definition example_results :: "real results" where
  "example_results = [''genus'' \<mapsto> [[example_match]], ''species'' \<mapsto> [[example_match]]]"

text \<open>The record before the loop over the levels (lines 208-210).\<close>

definition base_row :: "string \<Rightarrow> nat \<Rightarrow> 's row" where
  "base_row seq_id j = [(''Sequence_ID'', Str seq_id), (''Rank'', Rank (int j + 1))]"

section \<open>Properties of the validation\<close>

lemma count_valid_headers_filter:
  "count_valid_headers hs n = n + length (filter valid_header hs)"
  by (induction hs arbitrary: n) auto

lemma collect_seq_ids_distinct:
  assumes "\<forall>h\<in>set hs. parse_header h \<noteq> []"
    and "distinct (acc @ map (\<lambda>h. hd (parse_header h)) hs)"
  shows "collect_seq_ids parse_header hs acc = Inr (acc @ map (\<lambda>h. hd (parse_header h)) hs)"
  using assms
proof (induction hs arbitrary: acc)
  case Nil
  then show ?case by simp
next
  case (Cons h hs)
  from Cons.prems(1) obtain sid rest where ph: "parse_header h = sid # rest"
    by (cases "parse_header h") auto
  from Cons.prems(2) ph have fresh: "sid \<notin> set acc"
    by auto
  from Cons.prems(2) ph
  have d: "distinct ((acc @ [sid]) @ map (\<lambda>h. hd (parse_header h)) hs)"
    by auto
  from Cons.prems(1) have ne: "\<forall>h\<in>set hs. parse_header h \<noteq> []"
    by simp
  from Cons.IH [OF ne d] ph fresh show ?case
    by simp
qed

lemma map_fst_append_seq: "map fst (append_seq l d) = map fst d"
  by (cases d rule: rev_cases) (auto simp: append_seq_def)

lemma parse_lines_ok:
  "distinct (map fst d @ filter is_header ls) \<Longrightarrow>
   \<exists>d'. parse_lines ls d = Inr d' \<and> map fst d' = map fst d @ filter is_header ls"
proof (induction ls arbitrary: d)
  case Nil
  then show ?case by simp
next
  case (Cons l ls)
  show ?case
  proof (cases "is_header l")
    case True
    with Cons.prems have "l \<notin> set (map fst d)" by auto
    moreover from True Cons.prems
    have "distinct (map fst (d @ [(l, [])]) @ filter is_header ls)" by auto
    from Cons.IH [OF this] obtain d' where
      "parse_lines ls (d @ [(l, [])]) = Inr d'"
      "map fst d' = map fst (d @ [(l, [])]) @ filter is_header ls" by blast
    ultimately show ?thesis using True by simp
  next
    case False
    with Cons.prems have "distinct (map fst (append_seq l d) @ filter is_header ls)"
      by (simp add: map_fst_append_seq)
    from Cons.IH [OF this] False show ?thesis
      by (simp add: map_fst_append_seq)
  qed
qed

lemma parse_lines_dup:
  "distinct (map fst d) \<Longrightarrow> \<not> distinct (map fst d @ filter is_header ls) \<Longrightarrow>
   \<exists>m. parse_lines ls d = Inl m"
proof (induction ls arbitrary: d)
  case Nil
  then show ?case by simp
next
  case (Cons l ls)
  show ?case
  proof (cases "is_header l")
    case True
    show ?thesis
    proof (cases "l \<in> set (map fst d)")
      case True
      with \<open>is_header l\<close> show ?thesis by simp
    next
      case False
      with Cons.prems True have "distinct (map fst (d @ [(l, [])]))"
        and "\<not> distinct (map fst (d @ [(l, [])]) @ filter is_header ls)"
        by auto
      from Cons.IH [OF this] False True show ?thesis by simp
    qed
  next
    case False
    with Cons.prems have "distinct (map fst (append_seq l d))"
      and "\<not> distinct (map fst (append_seq l d) @ filter is_header ls)"
      by (simp_all add: map_fst_append_seq)
    from Cons.IH [OF this] False show ?thesis by simp
  qed
qed

lemma parse_fasta_duplicate_header:
  "\<not> distinct (header_lines content) \<Longrightarrow> \<exists>m. parse_fasta content = Inl m"
  using parse_lines_dup [of "[]" "split_lines content"]
  by (simp add: parse_fasta_def header_lines_def)

lemma parse_fasta_headers:
  "distinct (header_lines content) \<Longrightarrow>
   \<exists>d. parse_fasta content = Inr d \<and> map fst d = header_lines content"
  using parse_lines_ok [of "[]" "split_lines content"]
  by (simp add: parse_fasta_def header_lines_def)

text \<open>The first identifier that repeats is the one reported.\<close>

lemma collect_seq_ids_duplicate:
  assumes "\<forall>h\<in>set hs. parse_header h \<noteq> []"
    and "distinct acc"
    and "\<not> distinct (acc @ map (\<lambda>h. hd (parse_header h)) hs)"
  shows "\<exists>j<length hs.
           hd (parse_header (hs ! j)) \<in> set (acc @ map (\<lambda>h. hd (parse_header h)) (take j hs)) \<and>
           distinct (acc @ map (\<lambda>h. hd (parse_header h)) (take j hs)) \<and>
           collect_seq_ids parse_header hs acc =
             Inl (DuplicateIdentifierError (duplicate_id_message (hd (parse_header (hs ! j)))))"
  using assms
proof (induction hs arbitrary: acc)
  case Nil
  then show ?case by simp
next
  case (Cons h hs)
  from Cons.prems(1) obtain sid rest where ph: "parse_header h = sid # rest"
    by (cases "parse_header h") auto
  show ?case
  proof (cases "sid \<in> set acc")
    case True
    with ph Cons.prems(2) show ?thesis
      by (intro exI [of _ 0]) simp
  next
    case False
    from Cons.prems(1) have ne: "\<forall>h\<in>set hs. parse_header h \<noteq> []" by simp
    from False Cons.prems(2) have d: "distinct (acc @ [sid])" by simp
    from Cons.prems(3) ph
    have nd: "\<not> distinct ((acc @ [sid]) @ map (\<lambda>h. hd (parse_header h)) hs)" by simp
    from Cons.IH [OF ne d nd] obtain j where j: "j < length hs"
      "hd (parse_header (hs ! j)) \<in> set ((acc @ [sid]) @ map (\<lambda>h. hd (parse_header h)) (take j hs))"
      "distinct ((acc @ [sid]) @ map (\<lambda>h. hd (parse_header h)) (take j hs))"
      "collect_seq_ids parse_header hs (acc @ [sid]) =
         Inl (DuplicateIdentifierError (duplicate_id_message (hd (parse_header (hs ! j)))))"
      by blast
    with ph False show ?thesis
      by (intro exI [of _ "Suc j"]) simp
  qed
qed

subsection \<open>Accepted inputs\<close>

text \<open>
  Claim C1. When the text parses (the headers are unique), every header passes the test
  of the script and yields an identifier, the identifiers are pairwise different and
  there are at most 100 records, \<open>validate_input\<close> stops nowhere: it reports the number
  of records and stores the identifiers, the first field that the header parser returns
  for each header, in the order of the headers in the dictionary.
\<close>

theorem validate_input_accepts:
  assumes "parse content = Inr d"
    and "\<forall>h\<in>set (map fst d). valid_header h \<and> parse_header h \<noteq> []"
    and "distinct (map (\<lambda>h. hd (parse_header h)) (map fst d))"
    and "length d \<le> 100"
  shows "validate_input parse parse_header content st =
           Inr (accepted_message (length d),
                st\<lparr>ss_seq_ids := Some (map (\<lambda>h. hd (parse_header h)) (map fst d)),
                   ss_fasta_content := Some content\<rparr>)"
proof -
  from assms(2) have ne: "\<forall>h\<in>set (map fst d). parse_header h \<noteq> []"
    by blast
  from assms(3) have dist: "distinct ([] @ map (\<lambda>h. hd (parse_header h)) (map fst d))"
    by simp
  have ids: "collect_seq_ids parse_header (map fst d) [] =
               Inr (map (\<lambda>h. hd (parse_header h)) (map fst d))"
    using collect_seq_ids_distinct [OF ne dist] by simp
  from assms(2) have "filter valid_header (map fst d) = map fst d"
    by (intro filter_True) blast
  then have cnt: "count_valid_headers (map fst d) 0 = length d"
    by (simp add: count_valid_headers_filter)
  from assms(1) assms(4) ids cnt show ?thesis
    by (simp add: validate_input_def)
qed

theorem validate_input_accepts_witness:
  "parse_fasta ''>a\<newline>ATGC\<newline>>b\<newline>CGTA\<newline>'' = Inr [(''>a'', ''ATGC''), (''>b'', ''CGTA'')] \<and>
   validate_input parse_fasta parse_unite_fasta_header ''>a\<newline>ATGC\<newline>>b\<newline>CGTA\<newline>'' st0 =
     Inr (accepted_message 2,
          st0\<lparr>ss_seq_ids := Some [''a'', ''b''],
              ss_fasta_content := Some ''>a\<newline>ATGC\<newline>>b\<newline>CGTA\<newline>''\<rparr>)"
proof -
  have p: "parse_fasta ''>a\<newline>ATGC\<newline>>b\<newline>CGTA\<newline>'' = Inr [(''>a'', ''ATGC''), (''>b'', ''CGTA'')]"
    by code_simp
  have v: "\<forall>h\<in>set (map fst [(''>a'', ''ATGC''), (''>b'', ''CGTA'')]).
             valid_header h \<and> parse_unite_fasta_header h \<noteq> []"
    by (simp add: valid_header_def parse_unite_fasta_header_def)
  have i: "map (\<lambda>h. hd (parse_unite_fasta_header h)) (map fst [(''>a'', ''ATGC''), (''>b'', ''CGTA'')])
             = [''a'', ''b'']"
    by code_simp
  have d: "distinct (map (\<lambda>h. hd (parse_unite_fasta_header h))
             (map fst [(''>a'', ''ATGC''), (''>b'', ''CGTA'')]))"
    unfolding i by simp
  have l: "length [(''>a'', ''ATGC''), (''>b'', ''CGTA'')] \<le> (100::nat)"
    by simp
  from validate_input_accepts [where parse = parse_fasta and parse_header = parse_unite_fasta_header and st = st0, OF p v d l] p show ?thesis
    unfolding i by (simp add: numeral_2_eq_2)
qed

subsection \<open>Identical headers\<close>

text \<open>
  Claim C7. When two header lines of the text are identical, the run stops with the parse
  error, whose message ends with the request to make all headers unique, whatever the
  sequence lines are and whatever the header parser does.
\<close>

theorem duplicate_header_rejected:
  assumes "\<not> distinct (header_lines content)"
  shows "\<exists>m. validate_input parse_fasta parse_header content st =
           Inl (ParseError (m @ ''\<newline>\<newline>Please ensure all FASTA headers are unique.''))"
proof -
  from parse_fasta_duplicate_header [OF assms] obtain m where "parse_fasta content = Inl m" ..
  then have "validate_input parse_fasta parse_header content st =
           Inl (ParseError (m @ ''\<newline>\<newline>Please ensure all FASTA headers are unique.''))"
    by (simp add: validate_input_def parse_error_message_def)
  then show ?thesis by (intro exI [of _ m])
qed

theorem duplicate_header_rejected_witness:
  "\<not> distinct (header_lines ''>a\<newline>ATGC\<newline>>a\<newline>CGTA\<newline>'') \<and>
   (\<exists>m. validate_input parse_fasta parse_unite_fasta_header ''>a\<newline>ATGC\<newline>>a\<newline>CGTA\<newline>'' st0 =
           Inl (ParseError (m @ ''\<newline>\<newline>Please ensure all FASTA headers are unique.'')))"
proof -
  have h: "\<not> distinct (header_lines ''>a\<newline>ATGC\<newline>>a\<newline>CGTA\<newline>'')"
    by code_simp
  from duplicate_header_rejected [OF h] h show ?thesis by blast
qed


subsection \<open>Headers without a character after the delimiter\<close>

text \<open>
  The claim C3 as stated fails on three records of which two share the identifier
  \<open>a\<close> and one has the bare header \<open>>\<close>: two of three headers are valid, and the
  run stops with the duplicate-identifier error, which is tested first.
\<close>

theorem malformed_header_counterexample:
  "parse_fasta ''>a x\<newline>A\<newline>>a y\<newline>C\<newline>>\<newline>G\<newline>'' =
     Inr [(''>a x'', ''A''), (''>a y'', ''C''), (''>'', ''G'')] \<and>
   count_valid_headers [''>a x'', ''>a y'', ''>''] 0 = 2 \<and>
   length [(''>a x'', ''A''), (''>a y'', ''C''), (''>'', ''G'')] = 3 \<and>
   validate_input parse_fasta parse_unite_fasta_header
     ''>a x\<newline>A\<newline>>a y\<newline>C\<newline>>\<newline>G\<newline>'' st0 =
     Inl (DuplicateIdentifierError (duplicate_id_message ''a''))"
  by code_simp

text \<open>
  Claim C3, amended. A header that starts with the delimiter passes the test exactly
  when a character follows the delimiter. When the text parses, every header yields an
  identifier, no identifier occurs twice and the number of valid headers differs from the
  number of records, the run stops with the malformed-header error, whatever the number
  of records: the cap is not tested.
\<close>

theorem malformed_header_rejected:
  assumes "parse content = Inr d"
    and "\<forall>h\<in>set (map fst d). parse_header h \<noteq> []"
    and "distinct (map (\<lambda>h. hd (parse_header h)) (map fst d))"
    and "count_valid_headers (map fst d) 0 \<noteq> length d"
  shows "(valid_header (CHR ''>'' # rest) \<longleftrightarrow> rest \<noteq> []) \<and>
         validate_input parse parse_header content st =
           Inl (MalformedHeaderError invalid_header_message)"
proof -
  from assms(3) have dist: "distinct ([] @ map (\<lambda>h. hd (parse_header h)) (map fst d))"
    by simp
  have ids: "collect_seq_ids parse_header (map fst d) [] =
               Inr (map (\<lambda>h. hd (parse_header h)) (map fst d))"
    using collect_seq_ids_distinct [OF assms(2) dist] by simp
  have v: "valid_header (CHR ''>'' # rest) \<longleftrightarrow> rest \<noteq> []"
    by (cases rest) (simp_all add: valid_header_def)
  from assms(1) assms(4) ids have
    "validate_input parse parse_header content st =
       Inl (MalformedHeaderError invalid_header_message)"
    by (simp add: validate_input_def)
  with v show ?thesis by simp
qed

theorem malformed_header_rejected_witness:
  "parse_fasta ''>a\<newline>ATGC\<newline>>\<newline>CGTA\<newline>'' = Inr [(''>a'', ''ATGC''), (''>'', ''CGTA'')] \<and>
   count_valid_headers (map fst [(''>a'', ''ATGC''), (''>'', ''CGTA'')]) 0 \<noteq> 2 \<and>
   (valid_header (CHR ''>'' # ''a'') \<longleftrightarrow> ''a'' \<noteq> []) \<and>
   validate_input parse_fasta parse_unite_fasta_header ''>a\<newline>ATGC\<newline>>\<newline>CGTA\<newline>'' st0 =
     Inl (MalformedHeaderError invalid_header_message)"
proof -
  have p: "parse_fasta ''>a\<newline>ATGC\<newline>>\<newline>CGTA\<newline>'' = Inr [(''>a'', ''ATGC''), (''>'', ''CGTA'')]"
    by code_simp
  have n: "\<forall>h\<in>set (map fst [(''>a'', ''ATGC''), (''>'', ''CGTA'')]). parse_unite_fasta_header h \<noteq> []"
    by (simp add: parse_unite_fasta_header_def)
  have d: "distinct (map (\<lambda>h. hd (parse_unite_fasta_header h))
             (map fst [(''>a'', ''ATGC''), (''>'', ''CGTA'')]))"
    by code_simp
  have c: "count_valid_headers (map fst [(''>a'', ''ATGC''), (''>'', ''CGTA'')]) 0 \<noteq>
             length [(''>a'', ''ATGC''), (''>'', ''CGTA'')]"
    by code_simp
  from malformed_header_rejected [where parse = parse_fasta and
      parse_header = parse_unite_fasta_header and st = st0 and rest = "''a''", OF p n d c] p c
  show ?thesis by simp
qed

lemma not_distinct_map:
  "x \<in> set xs \<Longrightarrow> y \<in> set xs \<Longrightarrow> x \<noteq> y \<Longrightarrow> f x = f y \<Longrightarrow> \<not> distinct (map f xs)"
  by (auto simp: distinct_map inj_on_def)

subsection \<open>Headers that share an identifier\<close>

text \<open>
  The claim C6 as stated fails on a text in which two different headers share the
  identifier \<open>a\<close> and one of them occurs twice: the run stops with the parse error.
\<close>

theorem duplicate_identifier_counterexample:
  "distinct [''>a x'', ''>a y''] \<and>
   set [''>a x'', ''>a y''] \<subseteq> set (header_lines ''>a x\<newline>A\<newline>>a y\<newline>C\<newline>>a x\<newline>G\<newline>'') \<and>
   hd (parse_unite_fasta_header ''>a x'') = hd (parse_unite_fasta_header ''>a y'') \<and>
   validate_input parse_fasta parse_unite_fasta_header
     ''>a x\<newline>A\<newline>>a y\<newline>C\<newline>>a x\<newline>G\<newline>'' st0 =
     Inl (ParseError (parse_error_message ''Duplicate header found: >a x''))"
  by code_simp

text \<open>
  Claim C6, amended. When the text parses, every header yields an identifier and two
  different headers have the same identifier, the run stops with the
  duplicate-identifier error, whose message names the first identifier that the loop
  meets a second time: the identifier of the header at the least position \<open>j\<close> whose
  identifier occurs among those of the headers before it.
\<close>

theorem duplicate_identifier_rejected:
  assumes "parse content = Inr d"
    and "\<forall>h\<in>set (map fst d). parse_header h \<noteq> []"
    and "h1 \<in> set (map fst d)" and "h2 \<in> set (map fst d)" and "h1 \<noteq> h2"
    and "hd (parse_header h1) = hd (parse_header h2)"
  shows "\<exists>j<length d.
           hd (parse_header (fst (d ! j))) \<in> set (map (\<lambda>h. hd (parse_header h)) (take j (map fst d))) \<and>
           distinct (map (\<lambda>h. hd (parse_header h)) (take j (map fst d))) \<and>
           validate_input parse parse_header content st =
             Inl (DuplicateIdentifierError
                    (duplicate_id_message (hd (parse_header (fst (d ! j))))))"
proof -
  have "\<not> distinct (map (\<lambda>h. hd (parse_header h)) (map fst d))"
    by (rule not_distinct_map [OF assms(3) assms(4) assms(5) assms(6)])
  then have nd: "\<not> distinct ([] @ map (\<lambda>h. hd (parse_header h)) (map fst d))"
    by simp
  from collect_seq_ids_duplicate [OF assms(2) _ nd]
  obtain j where j: "j < length (map fst d)"
    "hd (parse_header (map fst d ! j)) \<in>
       set ([] @ map (\<lambda>h. hd (parse_header h)) (take j (map fst d)))"
    "distinct ([] @ map (\<lambda>h. hd (parse_header h)) (take j (map fst d)))"
    "collect_seq_ids parse_header (map fst d) [] =
       Inl (DuplicateIdentifierError (duplicate_id_message (hd (parse_header (map fst d ! j)))))"
    by auto
  from j(1) have jd: "j < length d" by simp
  with j(2-4) assms(1) have
    "hd (parse_header (fst (d ! j))) \<in> set (map (\<lambda>h. hd (parse_header h)) (take j (map fst d))) \<and>
     distinct (map (\<lambda>h. hd (parse_header h)) (take j (map fst d))) \<and>
     validate_input parse parse_header content st =
       Inl (DuplicateIdentifierError (duplicate_id_message (hd (parse_header (fst (d ! j))))))"
    by (simp add: validate_input_def)
  with jd show ?thesis by blast
qed


theorem duplicate_identifier_rejected_witness:
  "parse_fasta ''>a x\<newline>A\<newline>>a y\<newline>C\<newline>'' = Inr [(''>a x'', ''A''), (''>a y'', ''C'')] \<and>
   ''>a x'' \<noteq> ''>a y'' \<and>
   hd (parse_unite_fasta_header ''>a x'') = hd (parse_unite_fasta_header ''>a y'') \<and>
   (\<exists>j<length [(''>a x'', ''A''), (''>a y'', ''C'')].
      validate_input parse_fasta parse_unite_fasta_header ''>a x\<newline>A\<newline>>a y\<newline>C\<newline>'' st0 =
        Inl (DuplicateIdentifierError (duplicate_id_message
              (hd (parse_unite_fasta_header (fst ([(''>a x'', ''A''), (''>a y'', ''C'')] ! j)))))))"
proof -
  have p: "parse_fasta ''>a x\<newline>A\<newline>>a y\<newline>C\<newline>'' = Inr [(''>a x'', ''A''), (''>a y'', ''C'')]"
    by code_simp
  have n: "\<forall>h\<in>set (map fst [(''>a x'', ''A''), (''>a y'', ''C'')]). parse_unite_fasta_header h \<noteq> []"
    by (simp add: parse_unite_fasta_header_def)
  have m1: "''>a x'' \<in> set (map fst [(''>a x'', ''A''), (''>a y'', ''C'')])"
    by simp
  have m2: "''>a y'' \<in> set (map fst [(''>a x'', ''A''), (''>a y'', ''C'')])"
    by simp
  have ne: "''>a x'' \<noteq> ''>a y''"
    by simp
  have e: "hd (parse_unite_fasta_header ''>a x'') = hd (parse_unite_fasta_header ''>a y'')"
    by code_simp
  from duplicate_identifier_rejected [where parse = parse_fasta and
      parse_header = parse_unite_fasta_header and st = st0, OF p n m1 m2 ne e] p ne e
  show ?thesis by blast
qed

subsection \<open>The cap of 100 records\<close>


text \<open>
  Claim C8, amended. When the text parses, every header is valid and yields an
  identifier and no identifier occurs twice, the run stops with the too-many-records
  error exactly when there are more than 100 records; with 100 records or fewer it
  succeeds, reports the number of records and stores the identifiers.
\<close>

theorem record_cap:
  assumes "parse content = Inr d"
    and "\<forall>h\<in>set (map fst d). valid_header h \<and> parse_header h \<noteq> []"
    and "distinct (map (\<lambda>h. hd (parse_header h)) (map fst d))"
  shows "(validate_input parse parse_header content st =
            Inl (TooManyRecordsError too_many_message) \<longleftrightarrow> length d > 100) \<and>
         (length d \<le> 100 \<longrightarrow>
            validate_input parse parse_header content st =
              Inr (accepted_message (length d),
                   st\<lparr>ss_seq_ids := Some (map (\<lambda>h. hd (parse_header h)) (map fst d)),
                      ss_fasta_content := Some content\<rparr>))"
proof -
  from assms(2) have ne: "\<forall>h\<in>set (map fst d). parse_header h \<noteq> []"
    by blast
  from assms(3) have dist: "distinct ([] @ map (\<lambda>h. hd (parse_header h)) (map fst d))"
    by simp
  have ids: "collect_seq_ids parse_header (map fst d) [] =
               Inr (map (\<lambda>h. hd (parse_header h)) (map fst d))"
    using collect_seq_ids_distinct [OF ne dist] by simp
  from assms(2) have "filter valid_header (map fst d) = map fst d"
    by (intro filter_True) blast
  then have cnt: "count_valid_headers (map fst d) 0 = length d"
    by (simp add: count_valid_headers_filter)
  from assms(1) ids cnt show ?thesis
    by (simp add: validate_input_def Let_def)
qed

theorem record_cap_witness:
  "parse_fasta ''>a\<newline>ATGC\<newline>>b\<newline>CGTA\<newline>'' = Inr [(''>a'', ''ATGC''), (''>b'', ''CGTA'')] \<and>
   validate_input parse_fasta parse_unite_fasta_header ''>a\<newline>ATGC\<newline>>b\<newline>CGTA\<newline>'' st0 \<noteq>
     Inl (TooManyRecordsError too_many_message) \<and>
   validate_input parse_fasta parse_unite_fasta_header ''>a\<newline>ATGC\<newline>>b\<newline>CGTA\<newline>'' st0 =
     Inr (accepted_message 2,
          st0\<lparr>ss_seq_ids := Some [''a'', ''b''],
              ss_fasta_content := Some ''>a\<newline>ATGC\<newline>>b\<newline>CGTA\<newline>''\<rparr>)"
proof -
  have p: "parse_fasta ''>a\<newline>ATGC\<newline>>b\<newline>CGTA\<newline>'' = Inr [(''>a'', ''ATGC''), (''>b'', ''CGTA'')]"
    by code_simp
  have v: "\<forall>h\<in>set (map fst [(''>a'', ''ATGC''), (''>b'', ''CGTA'')]).
             valid_header h \<and> parse_unite_fasta_header h \<noteq> []"
    by (simp add: valid_header_def parse_unite_fasta_header_def)
  have i: "map (\<lambda>h. hd (parse_unite_fasta_header h)) (map fst [(''>a'', ''ATGC''), (''>b'', ''CGTA'')])
             = [''a'', ''b'']"
    by code_simp
  have d: "distinct (map (\<lambda>h. hd (parse_unite_fasta_header h))
             (map fst [(''>a'', ''ATGC''), (''>b'', ''CGTA'')]))"
    unfolding i by simp
  from record_cap [where parse = parse_fasta and parse_header = parse_unite_fasta_header
      and st = st0, OF p v d] p show ?thesis
    unfolding i by (simp add: numeral_2_eq_2)
qed

text \<open>
  The claim C8 as stated fails on 101 records with valid, pairwise different headers
  that all have the identifier \<open>a\<close>: more than 100 records are parsed, and the
  run stops with the duplicate-identifier error.
\<close>

theorem record_cap_counterexample:
  "length (projr (parse_fasta (shared_id_records 101))) = 101 \<and>
   validate_input parse_fasta parse_unite_fasta_header (shared_id_records 101) st0 =
     Inl (DuplicateIdentifierError (duplicate_id_message ''a''))"
proof -
  have p: "parse_fasta (shared_id_records 101) =
             Inr (map (\<lambda>i. (''>a '' @ str_of_nat i, ''A'')) [0..<101])"
    by code_simp
  have c: "collect_seq_ids parse_unite_fasta_header
             (map fst (map (\<lambda>i. (''>a '' @ str_of_nat i, ''A'')) [0..<101])) [] =
           Inl (DuplicateIdentifierError (duplicate_id_message ''a''))"
    by code_simp
  show ?thesis
    unfolding validate_input_def p sum.case c by simp
qed

section \<open>Properties of the search call\<close>

text \<open>
  Claim C10. Whatever the engine returns or raises, it is called on the file system in
  which the temporary file holds the submitted content; afterwards the file is gone and
  the rest of the file system is as before; the value or the exception of the engine is
  the outcome of \<open>process_fasta_and_run\<close>, and \<open>os.unlink\<close> does not fail.
\<close>

theorem temp_file_lifecycle:
  "process_fasta_and_run search name selected_model top_n content files =
     (files(name := None),
      case search (files(name \<mapsto> content)) name selected_model top_n of
        Inl e \<Rightarrow> Inl (EngineFailure e)
      | Inr results \<Rightarrow> Inr results)"
  by (simp add: process_fasta_and_run_def try_finally_def write_file_def os_unlink_def)

section \<open>Properties of the assembly\<close>

subsection \<open>The keys of different levels do not meet\<close>

lemma to_lower_not_upper: "\<not> (65 \<le> (of_char (to_lower c) :: nat) \<and> (of_char (to_lower c) :: nat) \<le> 90)"
  by (auto simp: to_lower_def Let_def)

lemma to_lower_neq_H: "to_lower c \<noteq> CHR ''H''"
  using to_lower_not_upper [of c] by auto

lemma to_lower_neq_S: "to_lower c \<noteq> CHR ''S''"
  using to_lower_not_upper [of c] by auto

lemma tl_capitalize: "tl (capitalize s) = map to_lower (tl s)"
  by (cases s) (simp_all add: capitalize_def)

lemma H_notin_capitalize: "CHR ''H'' \<notin> set (tl (capitalize s))"
  using to_lower_neq_H by (fastforce simp: tl_capitalize)

lemma S_notin_capitalize: "CHR ''S'' \<notin> set (tl (capitalize s))"
  using to_lower_neq_S by (fastforce simp: tl_capitalize)

lemma hit_key_not_label: "capitalize a @ ''_Hit'' \<noteq> capitalize b"
proof
  assume "capitalize a @ ''_Hit'' = capitalize b"
  then have "tl (capitalize a @ ''_Hit'') = tl (capitalize b)" by simp
  moreover have "CHR ''H'' \<in> set (tl (capitalize a @ ''_Hit''))"
    by (cases "capitalize a") simp_all
  ultimately show False using H_notin_capitalize [of b] by simp
qed

lemma similarity_key_not_label: "capitalize a @ ''_Similarity'' \<noteq> capitalize b"
proof
  assume "capitalize a @ ''_Similarity'' = capitalize b"
  then have "tl (capitalize a @ ''_Similarity'') = tl (capitalize b)" by simp
  moreover have "CHR ''S'' \<in> set (tl (capitalize a @ ''_Similarity''))"
    by (cases "capitalize a") simp_all
  ultimately show False using S_notin_capitalize [of b] by simp
qed

lemma hit_key_not_similarity: "a @ ''_Hit'' \<noteq> b @ ''_Similarity''"
proof
  assume "a @ ''_Hit'' = b @ ''_Similarity''"
  then have "last (a @ ''_Hit'') = last (b @ ''_Similarity'')" by simp
  then show False by simp
qed

lemma level_keys_disjoint:
  assumes "capitalize l \<noteq> capitalize level"
  shows "level_keys l \<inter> level_keys level = {}"
  using assms hit_key_not_label [of l level] hit_key_not_label [of level l]
    similarity_key_not_label [of l level] similarity_key_not_label [of level l]
    hit_key_not_similarity [of "capitalize l" "capitalize level"]
    hit_key_not_similarity [of "capitalize level" "capitalize l"]
  by (auto simp: level_keys_def)

lemma base_row_hit: "map_of (base_row seq_id j) (c @ ''_Hit'') = None"
proof -
  have "c @ ''_Hit'' \<noteq> ''Sequence_ID''"
    using arg_cong [of "c @ ''_Hit''" "''Sequence_ID''" last] by auto
  moreover have "c @ ''_Hit'' \<noteq> ''Rank''"
    using arg_cong [of "c @ ''_Hit''" "''Rank''" last] by auto
  ultimately show ?thesis by (simp add: base_row_def)
qed

lemma base_row_similarity: "map_of (base_row seq_id j) (c @ ''_Similarity'') = None"
proof -
  have "c @ ''_Similarity'' \<noteq> ''Sequence_ID''"
    using arg_cong [of "c @ ''_Similarity''" "''Sequence_ID''" last] by auto
  moreover have "c @ ''_Similarity'' \<noteq> ''Rank''"
    using arg_cong [of "c @ ''_Similarity''" "''Rank''" last] by auto
  ultimately show ?thesis by (simp add: base_row_def)
qed

subsection \<open>What the loop over the levels leaves under the keys of one level\<close>

lemma set_level_frame:
  assumes "set_level results i j level row = Inr row'" and "k \<notin> level_keys level"
  shows "map_of row' k = map_of row k"
  using assms
  by (auto simp: set_level_def Let_def level_keys_def update_conv'
      split: option.splits if_splits)

lemma set_level_agree:
  assumes "set_level results i j level row1 = Inr r1"
    and "set_level results i j level row2 = Inr r2"
    and "map_of row1 k = map_of row2 k"
  shows "map_of r1 k = map_of r2 k"
  using assms
  by (auto simp: set_level_def Let_def update_conv' split: option.splits if_splits)

lemma set_level_idem:
  assumes "set_level results i j level row0 = Inr r0"
    and "set_level results i j level row = Inr r1"
    and "map_of row k = map_of r0 k"
  shows "map_of r1 k = map_of r0 k"
  using assms
  by (auto simp: set_level_def Let_def update_conv' split: option.splits if_splits)


lemma set_levels_keys:
  assumes "set_levels results i j ls row = Inr row'"
    and "set_level results i j level row0 = Inr r0"
    and "\<forall>l\<in>set ls. l \<noteq> level \<longrightarrow> capitalize l \<noteq> capitalize level"
    and "k \<in> level_keys level"
    and "(level \<in> set ls \<and> map_of row k = map_of row0 k) \<or> map_of row k = map_of r0 k"
  shows "map_of row' k = map_of r0 k"
  using assms
proof (induction ls arbitrary: row)
  case Nil
  then show ?case by simp
next
  case (Cons x xs)
  from Cons.prems(1) obtain row1 where
    step: "set_level results i j x row = Inr row1" and
    rest: "set_levels results i j xs row1 = Inr row'"
    by (auto split: sum.splits)
  from Cons.prems(3) have inj: "\<forall>l\<in>set xs. l \<noteq> level \<longrightarrow> capitalize l \<noteq> capitalize level"
    by simp
  show ?case
  proof (cases "x = level")
    case True
    have "map_of row1 k = map_of r0 k"
    proof (cases "map_of row k = map_of r0 k")
      case True
      from step \<open>x = level\<close> have "set_level results i j level row = Inr row1" by simp
      from set_level_idem [OF Cons.prems(2) this True] show ?thesis .
    next
      case False
      with Cons.prems(5) have "map_of row k = map_of row0 k" by blast
      then have ag: "map_of row k = map_of row0 k" .
      from step \<open>x = level\<close> have "set_level results i j level row = Inr row1" by simp
      from set_level_agree [OF this Cons.prems(2) ag] show ?thesis .
    qed
    then show ?thesis
      using Cons.IH [OF rest Cons.prems(2) inj Cons.prems(4)] by blast
  next
    case False
    with Cons.prems(3) have "capitalize x \<noteq> capitalize level" by simp
    then have "level_keys x \<inter> level_keys level = {}"
      by (rule level_keys_disjoint)
    with Cons.prems(4) have "k \<notin> level_keys x" by blast
    with step have same: "map_of row1 k = map_of row k"
      by (rule set_level_frame)
    from Cons.prems(5) False same
    have "(level \<in> set xs \<and> map_of row1 k = map_of row0 k) \<or> map_of row1 k = map_of r0 k"
      by auto
    then show ?thesis
      using Cons.IH [OF rest Cons.prems(2) inj Cons.prems(4)] by blast
  qed
qed

lemma make_result_keys:
  assumes "make_result levels results seq_id i j = Inr row"
    and "set_level results i j level (base_row seq_id j) = Inr r0"
    and "inj_on capitalize (set levels)"
    and "level \<in> set levels"
    and "k \<in> level_keys level"
  shows "map_of row k = map_of r0 k"
proof -
  from assms(1) have run: "set_levels results i j levels (base_row seq_id j) = Inr row"
    by (simp add: make_result_def base_row_def)
  from assms(3) assms(4)
  have inj: "\<forall>l\<in>set levels. l \<noteq> level \<longrightarrow> capitalize l \<noteq> capitalize level"
    by (auto simp: inj_on_def)
  from assms(4)
  have start: "(level \<in> set levels \<and>
                 map_of (base_row seq_id j) k = map_of (base_row seq_id j :: 'a row) k) \<or>
               map_of (base_row seq_id j :: 'a row) k = map_of r0 k"
    by simp
  from set_levels_keys [OF run assms(2) inj assms(5) start] show ?thesis .
qed

subsection \<open>Well-formed results are assembled without exception\<close>

lemma set_level_total:
  assumes "results_ok levels results" and "level \<in> set levels"
  shows "\<exists>r. set_level results i j level row = Inr r"
proof -
  from assms obtain per_seq where ps: "results level = Some per_seq"
    and ids: "\<forall>result_list\<in>set per_seq. \<forall>result\<in>set result_list. match_id result \<noteq> None"
    by (auto simp: results_ok_def split: option.splits)
  show ?thesis
  proof (cases "i < length per_seq \<and> j < length (per_seq ! i)")
    case True
    then have "per_seq ! i ! j \<in> set (per_seq ! i)" and "per_seq ! i \<in> set per_seq"
      by simp_all
    with ids have "match_id (per_seq ! i ! j) \<noteq> None" by blast
    with ps True show ?thesis
      by (auto simp: set_level_def Let_def)
  next
    case False
    with ps show ?thesis
      by (auto simp: set_level_def Let_def)
  qed
qed

lemma set_levels_total:
  assumes "results_ok levels results" and "set ls \<subseteq> set levels"
  shows "\<exists>r. set_levels results i j ls row = Inr r"
  using assms(2)
proof (induction ls arbitrary: row)
  case Nil
  then show ?case by simp
next
  case (Cons x xs)
  then have "x \<in> set levels" by simp
  from set_level_total [OF assms(1) this] obtain r1 where
    "set_level results i j x row = Inr r1" by blast
  moreover from Cons have "\<exists>r. set_levels results i j xs r1 = Inr r" by simp
  ultimately show ?case by simp
qed

lemma make_result_total:
  assumes "results_ok levels results"
  shows "\<exists>r. make_result levels results seq_id i j = Inr r"
  using set_levels_total [OF assms order_refl] by (simp add: make_result_def)

lemma rank_loop_eq:
  assumes "results_ok levels results"
  shows "rank_loop levels results seq_id i js rows =
           Inr (rows @ map (\<lambda>j. projr (make_result levels results seq_id i j)) js)"
proof (induction js arbitrary: rows)
  case Nil
  then show ?case by simp
next
  case (Cons j js)
  from make_result_total [OF assms] obtain r where
    "make_result levels results seq_id i j = Inr r" by blast
  with Cons show ?case by simp
qed

lemma seq_loop_eq:
  assumes "results_ok levels results"
  shows "seq_loop levels results top_n ps acc =
           Inr (fold (\<lambda>(i, seq_id).
                  AList.update seq_id
                    (map (\<lambda>j. projr (make_result levels results seq_id i j)) [0..<top_n]))
                ps acc)"
proof (induction ps arbitrary: acc)
  case Nil
  then show ?case by simp
next
  case (Cons p ps)
  obtain i seq_id where p: "p = (i, seq_id)" by (cases p)
  with Cons show ?case
    by (simp add: rank_loop_eq [OF assms])
qed

lemma fold_update_other:
  "sid \<notin> snd ` set ps \<Longrightarrow>
   map_of (fold (\<lambda>(i, seq_id). AList.update seq_id (f i seq_id)) ps acc) sid = map_of acc sid"
  by (induction ps arbitrary: acc) (auto simp: update_conv')

lemma fold_update_lookup:
  "distinct (map snd ps) \<Longrightarrow> (i, sid) \<in> set ps \<Longrightarrow>
   map_of (fold (\<lambda>(i, seq_id). AList.update seq_id (f i seq_id)) ps acc) sid = Some (f i sid)"
proof (induction ps arbitrary: acc)
  case Nil
  then show ?case by simp
next
  case (Cons p ps)
  obtain i' sid' where p: "p = (i', sid')" by (cases p)
  show ?case
  proof (cases "(i, sid) = (i', sid')")
    case True
    with Cons.prems p have "sid \<notin> snd ` set ps" by auto
    from fold_update_other [OF this, of f "AList.update sid' (f i' sid') acc"] True p
    show ?thesis
      by (simp add: update_conv')
  next
    case False
    with Cons.prems p have "(i, sid) \<in> set ps" and "distinct (map snd ps)" by auto
    with Cons.IH p show ?thesis by simp
  qed
qed

lemma assemble_row:
  assumes "results_ok levels results" and "distinct seq_ids"
    and "i < length seq_ids" and "j < top_n"
  shows "\<exists>results_by_seq rows.
           assemble levels results seq_ids top_n = Inr results_by_seq \<and>
           map_of results_by_seq (seq_ids ! i) = Some rows \<and>
           length rows = top_n \<and>
           make_result levels results (seq_ids ! i) i j = Inr (rows ! j)"
proof -
  let ?f = "\<lambda>i seq_id. map (\<lambda>j. projr (make_result levels results seq_id i j)) [0..<top_n]"
  let ?ps = "zip [0..<length seq_ids] seq_ids"
  let ?rbs = "fold (\<lambda>(i, seq_id). AList.update seq_id (?f i seq_id)) ?ps []"
  have a: "assemble levels results seq_ids top_n = Inr ?rbs"
    by (simp add: assemble_def seq_loop_eq [OF assms(1)])
  have "map snd ?ps = seq_ids" by simp
  with assms(2) have d: "distinct (map snd ?ps)" by simp
  from assms(3) have m: "(i, seq_ids ! i) \<in> set ?ps"
    by (auto simp: set_zip intro!: exI [of _ i])
  have l: "map_of ?rbs (seq_ids ! i) = Some (?f i (seq_ids ! i))"
    by (rule fold_update_lookup [OF d m])
  from make_result_total [OF assms(1)] obtain r where
    r: "make_result levels results (seq_ids ! i) i j = Inr r" by blast
  with assms(4) have "make_result levels results (seq_ids ! i) i j = Inr (?f i (seq_ids ! i) ! j)"
    by simp
  with a l show ?thesis by simp
qed


lemma set_match_ids:
  "set (match_ids per_seq) =
     {x. \<exists>result_list\<in>set per_seq. \<exists>result\<in>set result_list. match_id result = Some x}"
  apply (auto simp: match_ids_def split: option.splits)
   apply blast
  apply metis
  done

lemma processed_ids_set:
  assumes "\<forall>l\<in>set ls. results l \<noteq> None"
  shows "\<exists>p. processed_ids results ls acc = Inr p \<and>
           set p = set acc \<union>
             {x. \<exists>level\<in>set ls. \<exists>per_seq. results level = Some per_seq \<and>
                   x \<in> set (match_ids per_seq)}"
  using assms
proof (induction ls arbitrary: acc)
  case Nil
  then show ?case by simp
next
  case (Cons l ls)
  then obtain per_seq where ps: "results l = Some per_seq" by auto
  from Cons.prems have "\<forall>l\<in>set ls. results l \<noteq> None" by simp
  from Cons.IH [OF this, of "acc @ match_ids per_seq"] obtain p where
    p: "processed_ids results ls (acc @ match_ids per_seq) = Inr p"
       "set p = set (acc @ match_ids per_seq) \<union>
          {x. \<exists>level\<in>set ls. \<exists>per_seq. results level = Some per_seq \<and>
                x \<in> set (match_ids per_seq)}"
    by blast
  from p(2) ps have "set p = set acc \<union>
          {x. \<exists>level\<in>set (l # ls). \<exists>per_seq. results level = Some per_seq \<and>
                x \<in> set (match_ids per_seq)}"
    by auto
  with p(1) ps show ?case by simp
qed

lemma results_ok_present:
  "results_ok levels results \<Longrightarrow> \<forall>l\<in>set levels. results l \<noteq> None"
  by (auto simp: results_ok_def split: option.splits)

lemma assemble_total:
  assumes "results_ok levels results"
  shows "\<exists>results_by_seq. assemble levels results seq_ids top_n = Inr results_by_seq"
  by (simp add: assemble_def seq_loop_eq [OF assms])

subsection \<open>Missing and empty slots\<close>

text \<open>
  Claim C2. The engine's results being well formed, the identifiers pairwise different
  and the levels having different capitalised names: for every position \<open>i\<close>, rank
  \<open>j < top_n\<close> and level for which \<open>results[level][i][j]\<close> is out of range, the
  assembly stores \<open>top_n\<close> records for the sequence, and the record of rank \<open>j\<close> has
  the label \<open>No match found\<close> for the level and neither hit nor similarity. With one
  match and \<open>top_n = 3\<close> this gives three records, with the sentinel at ranks 1 and 2.
\<close>

theorem missing_slot_sentinel:
  assumes "results_ok levels results" and "distinct seq_ids"
    and "inj_on capitalize (set levels)"
    and "i < length seq_ids" and "j < top_n" and "level \<in> set levels"
    and "results level = Some per_seq"
    and "\<not> (i < length per_seq \<and> j < length (per_seq ! i))"
  shows "\<exists>results_by_seq rows.
           assemble levels results seq_ids top_n = Inr results_by_seq \<and>
           map_of results_by_seq (seq_ids ! i) = Some rows \<and>
           length rows = top_n \<and>
           map_of (rows ! j) (capitalize level) = Some (Str ''No match found'') \<and>
           map_of (rows ! j) (capitalize level @ ''_Hit'') = None \<and>
           map_of (rows ! j) (capitalize level @ ''_Similarity'') = None"
proof -
  from assemble_row [OF assms(1,2,4,5)] obtain results_by_seq rows where
    a: "assemble levels results seq_ids top_n = Inr results_by_seq"
       "map_of results_by_seq (seq_ids ! i) = Some rows"
       "length rows = top_n"
       "make_result levels results (seq_ids ! i) i j = Inr (rows ! j)"
    by blast
  let ?base = "base_row (seq_ids ! i) j :: 'a row"
  let ?r0 = "AList.update (capitalize level) (Str ''No match found'') ?base"
  from assms(7,8) have s: "set_level results i j level ?base = Inr ?r0"
    by (auto simp: set_level_def Let_def)
  have k: "\<And>k. k \<in> level_keys level \<Longrightarrow> map_of (rows ! j) k = map_of ?r0 k"
    by (rule make_result_keys [OF a(4) s assms(3) assms(6)])
  have "map_of (rows ! j) (capitalize level) = map_of ?r0 (capitalize level)"
    by (rule k) (simp add: level_keys_def)
  then have l: "map_of (rows ! j) (capitalize level) = Some (Str ''No match found'')"
    by (simp add: update_conv')
  have "map_of (rows ! j) (capitalize level @ ''_Hit'') =
          map_of ?r0 (capitalize level @ ''_Hit'')"
    by (rule k) (simp add: level_keys_def)
  then have h: "map_of (rows ! j) (capitalize level @ ''_Hit'') = None"
    by (simp add: update_conv' base_row_hit)
  have "map_of (rows ! j) (capitalize level @ ''_Similarity'') =
          map_of ?r0 (capitalize level @ ''_Similarity'')"
    by (rule k) (simp add: level_keys_def)
  then have m: "map_of (rows ! j) (capitalize level @ ''_Similarity'') = None"
    by (simp add: update_conv' base_row_similarity)
  from a(1-3) l h m show ?thesis
    by (intro exI [of _ results_by_seq] exI [of _ rows]) simp
qed

text \<open>
  Claim C5. Under the same conditions, a slot \<open>results[level][i][j]\<close> that is present
  and whose entity has no label or an empty label for the level gives the empty string
  as label, hit and similarity of the level, not the label \<open>No match found\<close> of a
  missing slot.
\<close>

theorem empty_label_placeholders:
  assumes "results_ok levels results" and "distinct seq_ids"
    and "inj_on capitalize (set levels)"
    and "i < length seq_ids" and "j < top_n" and "level \<in> set levels"
    and "results level = Some per_seq"
    and "i < length per_seq" and "j < length (per_seq ! i)"
    and "entity (per_seq ! i ! j) level = None \<or> entity (per_seq ! i ! j) level = Some []"
  shows "\<exists>results_by_seq rows.
           assemble levels results seq_ids top_n = Inr results_by_seq \<and>
           map_of results_by_seq (seq_ids ! i) = Some rows \<and>
           length rows = top_n \<and>
           map_of (rows ! j) (capitalize level) = Some (Str []) \<and>
           map_of (rows ! j) (capitalize level @ ''_Hit'') = Some (Str []) \<and>
           map_of (rows ! j) (capitalize level @ ''_Similarity'') = Some (Str []) \<and>
           map_of (rows ! j) (capitalize level) \<noteq> Some (Str ''No match found'')"
proof -
  from assemble_row [OF assms(1,2,4,5)] obtain results_by_seq rows where
    a: "assemble levels results seq_ids top_n = Inr results_by_seq"
       "map_of results_by_seq (seq_ids ! i) = Some rows"
       "length rows = top_n"
       "make_result levels results (seq_ids ! i) i j = Inr (rows ! j)"
    by blast
  let ?base = "base_row (seq_ids ! i) j :: 'a row"
  let ?r0 = "AList.update (capitalize level @ ''_Similarity'') (Str [])
               (AList.update (capitalize level @ ''_Hit'') (Str [])
                 (AList.update (capitalize level) (Str []) ?base))"
  from assms(7-10) have s: "set_level results i j level ?base = Inr ?r0"
    by (auto simp: set_level_def Let_def)
  have k: "\<And>k. k \<in> level_keys level \<Longrightarrow> map_of (rows ! j) k = map_of ?r0 k"
    by (rule make_result_keys [OF a(4) s assms(3) assms(6)])
  have "map_of (rows ! j) (capitalize level) = map_of ?r0 (capitalize level)"
    by (rule k) (simp add: level_keys_def)
  then have l: "map_of (rows ! j) (capitalize level) = Some (Str [])"
    by (simp add: update_conv')
  have "map_of (rows ! j) (capitalize level @ ''_Hit'') =
          map_of ?r0 (capitalize level @ ''_Hit'')"
    by (rule k) (simp add: level_keys_def)
  then have h: "map_of (rows ! j) (capitalize level @ ''_Hit'') = Some (Str [])"
    by (simp add: update_conv' hit_key_not_similarity)
  have "map_of (rows ! j) (capitalize level @ ''_Similarity'') =
          map_of ?r0 (capitalize level @ ''_Similarity'')"
    by (rule k) (simp add: level_keys_def)
  then have m: "map_of (rows ! j) (capitalize level @ ''_Similarity'') = Some (Str [])"
    by (simp add: update_conv')
  from a(1-3) l h m show ?thesis
    by (intro exI [of _ results_by_seq] exI [of _ rows]) simp
qed

subsection \<open>The check of the counts\<close>

text \<open>
  Claim C4. When the first level has a number of result slots different from the number
  of identifiers, the script shows the message naming both numbers, computes the
  submitted identifiers that no match of any level carries, shows them when there are
  any, and goes on: the records are assembled as without the mismatch.
\<close>

theorem count_mismatch_reported:
  assumes "results_ok levels results"
    and "levels = level0 # rest"
    and "results level0 = Some per_seq"
    and "length per_seq \<noteq> length seq_ids"
  shows "\<exists>unprocessed results_by_seq.
           unprocessed_ids results levels seq_ids = Inr unprocessed \<and>
           set unprocessed = set seq_ids -
             {x. \<exists>level\<in>set levels. \<exists>ps. results level = Some ps \<and>
                   (\<exists>result_list\<in>set ps. \<exists>result\<in>set result_list. match_id result = Some x)} \<and>
           assemble levels results seq_ids top_n = Inr results_by_seq \<and>
           process_results levels results seq_ids top_n =
             Inr (St_error (mismatch_message (length seq_ids) (length per_seq)) #
                  (if unprocessed \<noteq> [] then
                     St_warning ''The following sequences were not processed:'' #
                     map (\<lambda>unprocessed_id. St_write (''- '' @ unprocessed_id)) unprocessed
                   else []),
                  results_by_seq)"
proof -
  from results_ok_present [OF assms(1)] have "\<forall>l\<in>set levels. results l \<noteq> None" .
  from processed_ids_set [OF this, of "[]"] obtain p where
    p: "processed_ids results levels [] = Inr p"
       "set p = set [] \<union> {x. \<exists>level\<in>set levels. \<exists>per_seq. results level = Some per_seq \<and>
                   x \<in> set (match_ids per_seq)}"
    by blast
  let ?u = "filter (\<lambda>s. s \<notin> set p) (remdups seq_ids)"
  from p(1) have u: "unprocessed_ids results levels seq_ids = Inr ?u"
    by (simp add: unprocessed_ids_def)
  from p(2) have su: "set ?u = set seq_ids -
             {x. \<exists>level\<in>set levels. \<exists>ps. results level = Some ps \<and>
                   (\<exists>result_list\<in>set ps. \<exists>result\<in>set result_list. match_id result = Some x)}"
    by (auto simp: set_match_ids)
  from assemble_total [OF assms(1)] obtain results_by_seq where
    a: "assemble levels results seq_ids top_n = Inr results_by_seq" by blast
  from assms(2-4) u have c: "check_counts levels results seq_ids =
      Inr (St_error (mismatch_message (length seq_ids) (length per_seq)) #
           (if ?u \<noteq> [] then
              St_warning ''The following sequences were not processed:'' #
              map (\<lambda>unprocessed_id. St_write (''- '' @ unprocessed_id)) ?u
            else []))"
    by (simp add: check_counts_def)
  have pr: "process_results levels results seq_ids top_n =
      Inr (St_error (mismatch_message (length seq_ids) (length per_seq)) #
           (if ?u \<noteq> [] then
              St_warning ''The following sequences were not processed:'' #
              map (\<lambda>unprocessed_id. St_write (''- '' @ unprocessed_id)) ?u
            else []),
           results_by_seq)"
    unfolding process_results_def c a by simp
  from u su a pr show ?thesis
    by (intro exI [of _ ?u] exI [of _ results_by_seq]) (intro conjI)
qed


lemma example_results_ok: "results_ok [''genus'', ''species''] example_results"
  by (simp add: results_ok_def example_results_def example_match_def)

lemma example_levels_inj: "inj_on capitalize (set [''genus'', ''species''])"
  by (simp add: capitalize_def to_upper_def)

theorem missing_slot_sentinel_witness:
  "results_ok [''genus'', ''species''] example_results \<and>
   inj_on capitalize (set [''genus'', ''species'']) \<and>
   example_results ''genus'' = Some [[example_match]] \<and>
   \<not> (0 < length [[example_match]] \<and> 1 < length ([[example_match]] ! 0)) \<and>
   (\<exists>results_by_seq rows.
      assemble [''genus'', ''species''] example_results [''a''] 3 = Inr results_by_seq \<and>
      map_of results_by_seq ([''a''] ! 0) = Some rows \<and>
      length rows = 3 \<and>
      map_of (rows ! 1) (capitalize ''genus'') = Some (Str ''No match found'') \<and>
      map_of (rows ! 1) (capitalize ''genus'' @ ''_Hit'') = None \<and>
      map_of (rows ! 1) (capitalize ''genus'' @ ''_Similarity'') = None)"
proof -
  have d: "distinct [''a'']" by simp
  have i: "(0::nat) < length [''a'']" by simp
  have j: "(1::nat) < 3" by simp
  have l: "''genus'' \<in> set [''genus'', ''species'']" by simp
  have r: "example_results ''genus'' = Some [[example_match]]"
    by (simp add: example_results_def)
  have o: "\<not> (0 < length [[example_match]] \<and> 1 < length ([[example_match]] ! 0))"
    by simp
  from missing_slot_sentinel [OF example_results_ok d example_levels_inj i j l r o]
    example_results_ok example_levels_inj r o
  show ?thesis by blast
qed

theorem empty_label_placeholders_witness:
  "results_ok [''genus'', ''species''] example_results \<and>
   inj_on capitalize (set [''genus'', ''species'']) \<and>
   example_results ''species'' = Some [[example_match]] \<and>
   entity ([[example_match]] ! 0 ! 0) ''species'' = Some [] \<and>
   (\<exists>results_by_seq rows.
      assemble [''genus'', ''species''] example_results [''a''] 3 = Inr results_by_seq \<and>
      map_of results_by_seq ([''a''] ! 0) = Some rows \<and>
      length rows = 3 \<and>
      map_of (rows ! 0) (capitalize ''species'') = Some (Str []) \<and>
      map_of (rows ! 0) (capitalize ''species'' @ ''_Hit'') = Some (Str []) \<and>
      map_of (rows ! 0) (capitalize ''species'' @ ''_Similarity'') = Some (Str []) \<and>
      map_of (rows ! 0) (capitalize ''species'') \<noteq> Some (Str ''No match found''))"
proof -
  have d: "distinct [''a'']" by simp
  have i: "(0::nat) < length [''a'']" by simp
  have j: "(0::nat) < 3" by simp
  have l: "''species'' \<in> set [''genus'', ''species'']" by simp
  have r: "example_results ''species'' = Some [[example_match]]"
    by (simp add: example_results_def)
  have i': "(0::nat) < length [[example_match]]" by simp
  have j': "(0::nat) < length ([[example_match]] ! 0)" by simp
  have e: "entity ([[example_match]] ! 0 ! 0) ''species'' = Some []"
    by (simp add: example_match_def)
  then have e': "entity ([[example_match]] ! 0 ! 0) ''species'' = None \<or>
                 entity ([[example_match]] ! 0 ! 0) ''species'' = Some []" ..
  from empty_label_placeholders [OF example_results_ok d example_levels_inj i j l r i' j' e']
    example_results_ok example_levels_inj r e
  show ?thesis by blast
qed

theorem count_mismatch_reported_witness:
  "results_ok [''genus'', ''species''] example_results \<and>
   example_results ''genus'' = Some [[example_match]] \<and>
   length [[example_match]] \<noteq> length [''a'', ''b''] \<and>
   (\<exists>unprocessed results_by_seq.
      unprocessed_ids example_results [''genus'', ''species''] [''a'', ''b''] = Inr unprocessed \<and>
      set unprocessed = set [''a'', ''b''] -
        {x. \<exists>level\<in>set [''genus'', ''species'']. \<exists>ps. example_results level = Some ps \<and>
              (\<exists>result_list\<in>set ps. \<exists>result\<in>set result_list. match_id result = Some x)} \<and>
      assemble [''genus'', ''species''] example_results [''a'', ''b''] 1 = Inr results_by_seq \<and>
      process_results [''genus'', ''species''] example_results [''a'', ''b''] 1 =
        Inr (St_error (mismatch_message (length [''a'', ''b'']) (length [[example_match]])) #
             (if unprocessed \<noteq> [] then
                St_warning ''The following sequences were not processed:'' #
                map (\<lambda>unprocessed_id. St_write (''- '' @ unprocessed_id)) unprocessed
              else []),
             results_by_seq))"
proof -
  have l: "[''genus'', ''species''] = ''genus'' # [''species'']" by simp
  have r: "example_results ''genus'' = Some [[example_match]]"
    by (simp add: example_results_def)
  have n: "length [[example_match]] \<noteq> length [''a'', ''b'']" by simp
  from count_mismatch_reported [OF example_results_ok l r n, of 1] example_results_ok r n
  show ?thesis by blast
qed

end
